theory Spec2Isabelle
  imports Main
begin

section \<open>The employee data service of server.py\<close>

text \<open>
  The file \<^verbatim>\<open>Real-life-Example/server.py\<close> holds one class, \<^verbatim>\<open>EmployeeDataService\<close>.
  Its constructor fills \<^verbatim>\<open>self.employees\<close> with 10000 formatted text lines built from
  random draws, and its handler \<^verbatim>\<open>StreamLargeData\<close> is a Python generator that yields one
  message per line inside a \<^verbatim>\<open>try\<close> block.

  Everything the code takes from outside is an explicit argument of the model: the
  random module is a source of raw numbers, the caller that drives the generator is a
  function from the index of a yielded frame to what happens at that \<^verbatim>\<open>yield\<close>, every
  \<^verbatim>\<open>print\<close> of the handler either writes its line or raises, and the readings of
  \<^verbatim>\<open>time.time()\<close> are numbers of clock ticks.
\<close>

subsection \<open>Formatting of integers\<close>

text \<open>
  The numbers formatted by the source are loop indices and results of
  \<^verbatim>\<open>random.randint\<close> with positive bounds, so they are naturals here.
  \<open>str_nat\<close> is the decimal numeral of \<^verbatim>\<open>{i}\<close>, \<open>zero_pad w\<close> the padding of
  \<^verbatim>\<open>{i:05d}\<close> and \<^verbatim>\<open>{m:02d}\<close> (zeros on the left up to width \<open>w\<close>, never truncating), and
  \<open>thousands\<close> the grouping of \<^verbatim>\<open>{salary:,}\<close> (a comma before every group of three
  digits counted from the right).
\<close>

definition digit_char :: "nat \<Rightarrow> char" where
  "digit_char d = char_of (48 + d)"

fun str_nat :: "nat \<Rightarrow> string" where
  "str_nat n = (if n < 10 then [digit_char n] else str_nat (n div 10) @ [digit_char (n mod 10)])"

declare str_nat.simps [simp del]

definition zero_pad :: "nat \<Rightarrow> string \<Rightarrow> string" where
  "zero_pad w s = replicate (w - length s) (CHR ''0'') @ s"

fun thousands :: "nat \<Rightarrow> string" where
  "thousands n = (if n < 1000 then str_nat n
     else thousands (n div 1000) @ CHR '','' # zero_pad 3 (str_nat (n mod 1000)))"

declare thousands.simps [simp del]

subsection \<open>The random module\<close>

text \<open>
  A random source is an infinite supply of raw naturals. \<^verbatim>\<open>random._randbelow(n)\<close> takes
  the next raw number and reduces it below \<open>n\<close>; \<^verbatim>\<open>random.choice(seq)\<close> is
  \<^verbatim>\<open>seq[_randbelow(len(seq))]\<close> and \<^verbatim>\<open>random.randint(a, b)\<close> is
  \<^verbatim>\<open>a + _randbelow(b - a + 1)\<close>, as in the standard library. Each call hands back the
  rest of the source. Every value the library may return is returned for some source,
  and no source gives a value outside the documented range. The source calls
  \<^verbatim>\<open>choice\<close> on two six-element literals and \<^verbatim>\<open>randint\<close> with \<open>a \<le> b\<close> only, so the
  IndexError of an empty sequence and the ValueError of an empty range have no
  call site.
\<close>

type_synonym rng = "nat \<Rightarrow> nat"

definition advance :: "nat \<Rightarrow> rng \<Rightarrow> rng" where
  "advance n g = (\<lambda>j. g (j + n))"

definition randbelow :: "nat \<Rightarrow> rng \<Rightarrow> nat \<times> rng" where
  "randbelow n g = (g 0 mod n, advance 1 g)"

definition choice :: "'a list \<Rightarrow> rng \<Rightarrow> 'a \<times> rng" where
  "choice seq g = (let (k, g') = randbelow (length seq) g in (seq ! k, g'))"

definition randint :: "nat \<Rightarrow> nat \<Rightarrow> rng \<Rightarrow> nat \<times> rng" where
  "randint a b g = (let (k, g') = randbelow (b - a + 1) g in (a + k, g'))"

subsection \<open>The generator of the records\<close>

definition departments :: "string list" where
  "departments = [''Engineering'', ''Marketing'', ''Sales'', ''HR'', ''Finance'', ''Operations'']"

definition positions :: "string list" where
  "positions = [''Manager'', ''Senior'', ''Junior'', ''Lead'', ''Director'', ''Analyst'']"

text \<open>The f-string of lines 51 to 58, as a function of the six values it formats.\<close>

definition employee_line :: "nat \<Rightarrow> string \<Rightarrow> string \<Rightarrow> nat \<Rightarrow> nat \<Rightarrow> nat \<Rightarrow> string" where
  "employee_line i position dept salary mm dd =
     ''ID: '' @ zero_pad 5 (str_nat i) @ '' | '' @
     ''Name: '' @ position @ '' '' @ dept @ '' Employee '' @ str_nat i @ '' | '' @
     ''Email: employee'' @ str_nat i @ ''@company.com'' @ '' | '' @
     ''Department: '' @ dept @ '' | '' @
     ''Salary: $'' @ thousands salary @ '' | '' @
     ''Hire Date: 2020-'' @ zero_pad 2 (str_nat mm) @ ''-'' @ zero_pad 2 (str_nat dd)"

text \<open>
  The five random calls of one iteration, in the order Python evaluates them:
  department, position, salary (lines 46 to 48), then month and day inside the
  f-string (line 57).
\<close>

record draws =
  dept :: string
  position :: string
  salary :: nat
  month :: nat
  day :: nat

definition draw :: "rng \<Rightarrow> draws \<times> rng" where
  "draw g =
     (let (d, g1) = choice departments g;
          (p, g2) = choice positions g1;
          (s, g3) = randint 45000 150000 g2;
          (m, g4) = randint 1 12 g3;
          (n, g5) = randint 1 28 g4
      in (\<lparr>dept = d, position = p, salary = s, month = m, day = n\<rparr>, g5))"

definition employee_data :: "nat \<Rightarrow> draws \<Rightarrow> string" where
  "employee_data i d = employee_line i (position d) (dept d) (salary d) (month d) (day d)"

text \<open>
  The loop of lines 45 to 59 over a list of indices: each iteration draws, formats
  and appends. \<open>generate_sample_data\<close> runs it over \<^verbatim>\<open>range(1, 10001)\<close>.
\<close>

fun generate_loop :: "nat list \<Rightarrow> string list \<Rightarrow> rng \<Rightarrow> string list \<times> rng" where
  "generate_loop [] employees g = (employees, g)"
| "generate_loop (i # rest) employees g =
     (let (d, g') = draw g
      in generate_loop rest (employees @ [employee_data i d]) g')"

definition generate_sample_data :: "rng \<Rightarrow> string list" where
  "generate_sample_data g = fst (generate_loop [1..<10001] [] g)"

text \<open>The draws behind the record at position \<open>k\<close> (from 0) of the list.\<close>

definition draws_at :: "rng \<Rightarrow> nat \<Rightarrow> draws" where
  "draws_at g k = fst (draw (advance (5 * k) g))"

subsection \<open>Reading a line back\<close>

text \<open>
  The reader of the round-trip property is not part of the source; it follows the
  property's words: \<^verbatim>\<open>line.split(" | ")\<close>, then \<^verbatim>\<open>field.split(": ")\<close> on each field.
  \<open>split_on sep cur s\<close> scans \<open>s\<close> from the left for occurrences of \<open>sep\<close> that do not
  overlap, \<open>cur\<close> being the piece read so far, as \<^verbatim>\<open>str.split\<close> does for a separator
  that is not empty. A value is read as a decimal numeral by \<open>parse_nat\<close> (leading
  zeros allowed, as \<^verbatim>\<open>int\<close> does), and a salary by \<open>parse_salary\<close>, which undoes the
  display format: the dollar sign is dropped and the commas are removed.
\<close>

fun split_on :: "string \<Rightarrow> string \<Rightarrow> string \<Rightarrow> string list" where
  "split_on sep cur [] = [cur]"
| "split_on sep cur (c # cs) =
     (if take (length sep) (c # cs) = sep
      then cur # split_on sep [] (drop (length sep - 1) cs)
      else split_on sep (cur @ [c]) cs)"

definition py_split :: "string \<Rightarrow> string \<Rightarrow> string list" where
  "py_split sep s = split_on sep [] s"

definition parse_record :: "string \<Rightarrow> string list list" where
  "parse_record line = map (py_split '': '') (py_split '' | '' line)"

fun label_value :: "string list \<Rightarrow> (string \<times> string) list" where
  "label_value [l, v] = [(l, v)]"
| "label_value _ = []"

definition field_value :: "string \<Rightarrow> string \<Rightarrow> string option" where
  "field_value label line = map_of (concat (map label_value (parse_record line))) label"

definition digit_of :: "char \<Rightarrow> nat option" where
  "digit_of c = (let n = (of_char c :: nat) in if 48 \<le> n \<and> n \<le> 57 then Some (n - 48) else None)"

fun parse_nat_acc :: "nat \<Rightarrow> string \<Rightarrow> nat option" where
  "parse_nat_acc a [] = Some a"
| "parse_nat_acc a (c # cs) =
     (case digit_of c of None \<Rightarrow> None | Some d \<Rightarrow> parse_nat_acc (10 * a + d) cs)"

definition parse_nat :: "string \<Rightarrow> nat option" where
  "parse_nat s = (if s = [] then None else parse_nat_acc 0 s)"

definition parse_salary :: "string \<Rightarrow> nat option" where
  "parse_salary v =
     (case v of
        [] \<Rightarrow> None
      | c # cs \<Rightarrow> if c = CHR ''$'' then parse_nat (filter (\<lambda>x. x \<noteq> CHR '','') cs) else None)"

text \<open>
  The value parts of four of the six fields, named so that the parsed form of a line
  can be written down.
\<close>

definition name_value :: "nat \<Rightarrow> string \<Rightarrow> string \<Rightarrow> string" where
  "name_value i p d = p @ '' '' @ d @ '' Employee '' @ str_nat i"

definition email_value :: "nat \<Rightarrow> string" where
  "email_value i = ''employee'' @ str_nat i @ ''@company.com''"

definition salary_value :: "nat \<Rightarrow> string" where
  "salary_value s = CHR ''$'' # thousands s"

definition date_value :: "nat \<Rightarrow> nat \<Rightarrow> string" where
  "date_value m n = ''2020-'' @ zero_pad 2 (str_nat m) @ ''-'' @ zero_pad 2 (str_nat n)"

definition line_id :: "string \<Rightarrow> nat option" where
  "line_id line = (case field_value ''ID'' line of None \<Rightarrow> None | Some v \<Rightarrow> parse_nat v)"

definition line_salary :: "string \<Rightarrow> nat option" where
  "line_salary line =
     (case field_value ''Salary'' line of None \<Rightarrow> None | Some v \<Rightarrow> parse_salary v)"

text \<open>The Gregorian calendar, to say what a valid date is.\<close>

definition is_leap :: "nat \<Rightarrow> bool" where
  "is_leap y = (y mod 4 = 0 \<and> (y mod 100 \<noteq> 0 \<or> y mod 400 = 0))"

definition days_in_month :: "nat \<Rightarrow> nat \<Rightarrow> nat" where
  "days_in_month y m =
     (if m = 2 then (if is_leap y then 29 else 28)
      else if m = 4 \<or> m = 6 \<or> m = 9 \<or> m = 11 then 30
      else if 1 \<le> m \<and> m \<le> 12 then 31 else 0)"

definition valid_date :: "nat \<Rightarrow> nat \<Rightarrow> nat \<Rightarrow> bool" where
  "valid_date y m d = (1 \<le> m \<and> m \<le> 12 \<and> 1 \<le> d \<and> d \<le> days_in_month y m)"

subsection \<open>The service and its streaming handler\<close>

text \<open>
  The service object holds the list built by the generator. The constructor's console
  line (line 37) is left out.
\<close>

record service =
  employees :: "string list"

definition EmployeeDataService :: "rng \<Rightarrow> service" where
  "EmployeeDataService g = \<lparr>employees = generate_sample_data g\<rparr>"

text \<open>
  \<^verbatim>\<open>StreamLargeData\<close> is a generator: whoever drives it receives a message at each
  \<^verbatim>\<open>yield\<close> and then either resumes it or makes an exception surface at that
  \<^verbatim>\<open>yield\<close> (\<^verbatim>\<open>throw\<close>, or \<^verbatim>\<open>close\<close>, which raises GeneratorExit). Python's exceptions
  fall in two classes for the handler's \<^verbatim>\<open>except Exception\<close>: the instances of
  \<^verbatim>\<open>Exception\<close>, given here by their \<^verbatim>\<open>str\<close>, and the instances of \<^verbatim>\<open>BaseException\<close>
  outside it (GeneratorExit, KeyboardInterrupt, SystemExit), given by their class name.
\<close>

datatype py_exception = Exception string | BaseException string

datatype signal = Resume | Raise py_exception

datatype message = LargeDataLine (line: string)

datatype status_code = INTERNAL

record servicer_context =
  details :: "string option"
  code :: "status_code option"

definition set_details :: "string \<Rightarrow> servicer_context \<Rightarrow> servicer_context" where
  "set_details d ctx = ctx\<lparr>details := Some d\<rparr>"

definition set_code :: "status_code \<Rightarrow> servicer_context \<Rightarrow> servicer_context" where
  "set_code c ctx = ctx\<lparr>code := Some c\<rparr>"

text \<open>
  The console lines of the handler, with the values they print. Times are readings of
  \<^verbatim>\<open>time.time()\<close> counted in ticks of the clock: the handler subtracts two readings
  and, on line 87, divides by the difference, which raises ZeroDivisionError exactly
  when the two readings are equal (its text in CPython is \<open>float division by zero\<close>).
  The formatted clock time of line 72 is left out.
\<close>

datatype console_line =
    Starting
  | Streaming nat
  | Progress nat int
  | Completed nat int
  | Throughput nat int
  | StreamError string

text \<open>
  A \<^verbatim>\<open>print\<close> can raise (the standard output may be closed, or may not encode the
  line). The handler prints at six places: lines 72 and 73 before the \<^verbatim>\<open>try\<close>, line 83
  in the loop when \<open>n\<close> records are out, lines 86 and 87 after the loop, and line 90 in
  the \<^verbatim>\<open>except\<close> clause. In one call each of them is reached at most once.
\<close>

datatype print_site = AtStart | AtCount | AtProgress nat | AtCompleted | AtThroughput | AtError

text \<open>
  What the handler meets: the signal at the yield of the frame with index \<open>i\<close>
  (from 0); for each place where it prints, nothing or the exception the write
  raises; and the clock readings of line 70, of line 82 when \<open>i + 1\<close> records are out,
  and of line 85.
\<close>

record env =
  at_yield :: "nat \<Rightarrow> signal"
  at_print :: "print_site \<Rightarrow> py_exception option"
  start_time :: int
  progress_time :: "nat \<Rightarrow> int"
  end_time :: int

text \<open>One \<^verbatim>\<open>print\<close>: the line is added to the console, or the exception is the result.\<close>

definition py_print ::
  "env \<Rightarrow> print_site \<Rightarrow> console_line \<Rightarrow> console_line list \<Rightarrow> py_exception + console_line list" where
  "py_print e site l con = (case at_print e site of None \<Rightarrow> Inr (con @ [l]) | Some x \<Rightarrow> Inl x)"

datatype ending = Returned | Propagated py_exception

record outcome =
  frames :: "message list"
  final_context :: servicer_context
  console :: "console_line list"
  ending :: ending

datatype loop_exit = Exhausted | Raised py_exception

text \<open>
  The loop of lines 76 to 83 over \<^verbatim>\<open>enumerate(self.employees)\<close>: \<open>out\<close> collects the
  messages yielded so far and \<open>con\<close> the console. An exception at the yield, or from
  the progress line of the same iteration, leaves the loop with the message already
  handed over.
\<close>

fun emit_loop ::
  "env \<Rightarrow> (nat \<times> string) list \<Rightarrow> message list \<Rightarrow> console_line list
    \<Rightarrow> loop_exit \<times> message list \<times> console_line list" where
  "emit_loop e [] out con = (Exhausted, out, con)"
| "emit_loop e ((i, l) # rest) out con =
     (case at_yield e i of
        Raise x \<Rightarrow> (Raised x, out @ [LargeDataLine l], con)
      | Resume \<Rightarrow>
          if (i + 1) mod 2500 = 0
          then (case py_print e (AtProgress (i + 1))
                       (Progress (i + 1) (progress_time e (i + 1) - start_time e)) con of
                  Inl x \<Rightarrow> (Raised x, out @ [LargeDataLine l], con)
                | Inr con' \<Rightarrow> emit_loop e rest (out @ [LargeDataLine l]) con')
          else emit_loop e rest (out @ [LargeDataLine l]) con)"

text \<open>
  The \<^verbatim>\<open>except Exception\<close> clause of lines 89 to 92. An instance of \<^verbatim>\<open>Exception\<close> is
  first reported on the console (line 90); if that write raises, the new exception
  leaves the handler before lines 91 and 92 are reached; otherwise the details and the
  code are set on the context and the generator returns. Any other exception passes
  the clause and leaves the generator. The two calls on the context are taken to
  succeed.
\<close>

definition except_clause ::
  "env \<Rightarrow> py_exception \<Rightarrow> message list \<Rightarrow> console_line list \<Rightarrow> servicer_context \<Rightarrow> outcome" where
  "except_clause e x out con ctx =
     (case x of
        Exception msg \<Rightarrow>
          (case py_print e AtError (StreamError msg) con of
             Inl y \<Rightarrow> \<lparr>frames = out, final_context = ctx, console = con, ending = Propagated y\<rparr>
           | Inr con' \<Rightarrow>
               \<lparr>frames = out,
                final_context = set_code INTERNAL (set_details (''Streaming error: '' @ msg) ctx),
                console = con', ending = Returned\<rparr>)
      | BaseException n \<Rightarrow>
          \<lparr>frames = out, final_context = ctx, console = con, ending = Propagated x\<rparr>)"

text \<open>
  What follows the loop inside the \<^verbatim>\<open>try\<close> (lines 85 to 87), with the clause above
  for whatever was raised in the loop or is raised here.
\<close>

definition finish_stream ::
  "env \<Rightarrow> nat \<Rightarrow> servicer_context \<Rightarrow> loop_exit \<times> message list \<times> console_line list \<Rightarrow> outcome" where
  "finish_stream e n ctx r =
     (case r of
        (Raised x, out, con) \<Rightarrow> except_clause e x out con ctx
      | (Exhausted, out, con) \<Rightarrow>
          (let total_time = end_time e - start_time e in
           case py_print e AtCompleted (Completed n total_time) con of
             Inl x \<Rightarrow> except_clause e x out con ctx
           | Inr con1 \<Rightarrow>
               if total_time = 0
               then except_clause e (Exception ''float division by zero'') out con1 ctx
               else (case py_print e AtThroughput (Throughput n total_time) con1 of
                       Inl x \<Rightarrow> except_clause e x out con1 ctx
                     | Inr con2 \<Rightarrow>
                         \<lparr>frames = out, final_context = ctx, console = con2,
                          ending = Returned\<rparr>)))"

text \<open>The request message has no fields, and the handler never reads it.\<close>

datatype request = LargeDataRequest

text \<open>
  The handler: lines 72 and 73 run before the \<^verbatim>\<open>try\<close>, so an exception of theirs
  leaves the handler before any frame; then the loop and what follows it.
\<close>

definition StreamLargeData :: "service \<Rightarrow> request \<Rightarrow> servicer_context \<Rightarrow> env \<Rightarrow> outcome" where
  "StreamLargeData self request ctx e =
     (let n = length (employees self) in
      case py_print e AtStart Starting [] of
        Inl x \<Rightarrow> \<lparr>frames = [], final_context = ctx, console = [], ending = Propagated x\<rparr>
      | Inr con0 \<Rightarrow>
          (case py_print e AtCount (Streaming n) con0 of
             Inl x \<Rightarrow>
               \<lparr>frames = [], final_context = ctx, console = con0, ending = Propagated x\<rparr>
           | Inr con1 \<Rightarrow>
               finish_stream e n ctx (emit_loop e (enumerate 0 (employees self)) [] con1)))"

text \<open>
  The exception, if any, that the iteration for index \<open>i\<close> raises: the one surfacing
  at its yield, or else the one of its progress line.
\<close>

definition iteration_raises :: "env \<Rightarrow> nat \<Rightarrow> py_exception option" where
  "iteration_raises e i =
     (case at_yield e i of
        Raise x \<Rightarrow> Some x
      | Resume \<Rightarrow> if (i + 1) mod 2500 = 0 then at_print e (AtProgress (i + 1)) else None)"

text \<open>
  For comparison, the handler with lines 80 to 83 (the progress indicator) taken
  out, everything else the same.
\<close>

fun emit_loop_no_progress ::
  "env \<Rightarrow> (nat \<times> string) list \<Rightarrow> message list \<Rightarrow> console_line list
    \<Rightarrow> loop_exit \<times> message list \<times> console_line list" where
  "emit_loop_no_progress e [] out con = (Exhausted, out, con)"
| "emit_loop_no_progress e ((i, l) # rest) out con =
     (case at_yield e i of
        Raise x \<Rightarrow> (Raised x, out @ [LargeDataLine l], con)
      | Resume \<Rightarrow> emit_loop_no_progress e rest (out @ [LargeDataLine l]) con)"

definition StreamLargeData_no_progress ::
  "service \<Rightarrow> request \<Rightarrow> servicer_context \<Rightarrow> env \<Rightarrow> outcome" where
  "StreamLargeData_no_progress self request ctx e =
     (let n = length (employees self) in
      case py_print e AtStart Starting [] of
        Inl x \<Rightarrow> \<lparr>frames = [], final_context = ctx, console = [], ending = Propagated x\<rparr>
      | Inr con0 \<Rightarrow>
          (case py_print e AtCount (Streaming n) con0 of
             Inl x \<Rightarrow>
               \<lparr>frames = [], final_context = ctx, console = con0, ending = Propagated x\<rparr>
           | Inr con1 \<Rightarrow>
               finish_stream e n ctx
                 (emit_loop_no_progress e (enumerate 0 (employees self)) [] con1)))"

fun is_progress :: "console_line \<Rightarrow> bool" where
  "is_progress (Progress n t) = True"
| "is_progress _ = False"

text \<open>Inputs used to run the definitions on examples.\<close>

definition sample_rng :: rng where
  "sample_rng = (\<lambda>j. 7 * j + 3)"

definition frame_id :: "message \<Rightarrow> nat option" where
  "frame_id m = line_id (line m)"

definition fresh_context :: servicer_context where
  "fresh_context = \<lparr>details = None, code = None\<rparr>"

definition reading_all :: "int \<Rightarrow> int \<Rightarrow> env" where
  "reading_all t0 t1 =
     \<lparr>at_yield = (\<lambda>i. Resume), at_print = (\<lambda>p. None), start_time = t0,
      progress_time = (\<lambda>n. t1), end_time = t1\<rparr>"

text \<open>
  A caller that resumes every yield but the one of index \<open>k\<close>, where \<open>x\<close> surfaces,
  and a console on which only the write at place \<open>p\<close> raises.
\<close>

definition failing_at :: "nat \<Rightarrow> py_exception \<Rightarrow> env" where
  "failing_at k x =
     \<lparr>at_yield = (\<lambda>i. if i = k then Raise x else Resume), at_print = (\<lambda>p. None),
      start_time = 0, progress_time = (\<lambda>n. 1), end_time = 2\<rparr>"

definition print_failing_at :: "print_site \<Rightarrow> py_exception \<Rightarrow> env" where
  "print_failing_at p x =
     \<lparr>at_yield = (\<lambda>i. Resume), at_print = (\<lambda>q. if q = p then Some x else None),
      start_time = 0, progress_time = (\<lambda>n. 1), end_time = 2\<rparr>"

section \<open>Properties of the formatting and of the reader\<close>

lemma digit_of_digit_char: "d < 10 \<Longrightarrow> digit_of (digit_char d) = Some d"
  by (simp add: digit_of_def digit_char_def)

lemma digit_of_str_nat: "c \<in> set (str_nat n) \<Longrightarrow> digit_of c \<noteq> None"
proof (induction n rule: str_nat.induct)
  case (1 n)
  show ?case
  proof (cases "n < 10")
    case True
    with "1.prems" show ?thesis
      by (simp add: str_nat.simps [of n] digit_of_digit_char)
  next
    case False
    with "1.prems" have "c \<in> set (str_nat (n div 10)) \<or> c = digit_char (n mod 10)"
      by (auto simp: str_nat.simps [of n])
    then show ?thesis
      using "1.IH" False by (auto simp: digit_of_digit_char)
  qed
qed

lemma digit_of_zero_pad: "c \<in> set (zero_pad w (str_nat n)) \<Longrightarrow> digit_of c \<noteq> None"
  by (auto simp: zero_pad_def digit_of_def dest: digit_of_str_nat)

lemma digit_of_not_special:
  "digit_of c \<noteq> None \<Longrightarrow> c \<noteq> CHR ''|'' \<and> c \<noteq> CHR '':'' \<and> c \<noteq> CHR '','' \<and> c \<noteq> CHR ''$'' \<and> c \<noteq> CHR '' ''"
  by (auto simp: digit_of_def)

lemma thousands_chars: "c \<in> set (thousands n) \<Longrightarrow> digit_of c \<noteq> None \<or> c = CHR '',''"
proof (induction n rule: thousands.induct)
  case (1 n)
  show ?case
  proof (cases "n < 1000")
    case True
    with "1.prems" show ?thesis
      by (simp add: thousands.simps [of n] digit_of_str_nat)
  next
    case False
    with "1.prems" have "c \<in> set (thousands (n div 1000)) \<or> c = CHR '','' \<or> c \<in> set (zero_pad 3 (str_nat (n mod 1000)))"
      by (auto simp: thousands.simps [of n])
    then show ?thesis
      using "1.IH" False digit_of_zero_pad by blast
  qed
qed

lemma parse_nat_acc_append:
  "parse_nat_acc a (s @ t) = (case parse_nat_acc a s of None \<Rightarrow> None | Some b \<Rightarrow> parse_nat_acc b t)"
  by (induction s arbitrary: a) (auto split: option.splits)

lemma parse_nat_acc_str_nat: "parse_nat_acc 0 (str_nat n) = Some n"
proof (induction n rule: str_nat.induct)
  case (1 n)
  show ?case
  proof (cases "n < 10")
    case True
    then show ?thesis by (simp add: str_nat.simps [of n] digit_of_digit_char)
  next
    case False
    then show ?thesis
      using "1.IH" by (simp add: str_nat.simps [of n] parse_nat_acc_append digit_of_digit_char)
  qed
qed

lemma str_nat_nonempty: "str_nat n \<noteq> []"
  by (simp add: str_nat.simps [of n])

lemma digit_of_zero: "digit_of (CHR ''0'') = Some 0"
  by (simp add: digit_of_def)

lemma parse_nat_acc_zeros: "parse_nat_acc 0 (replicate k (CHR ''0'')) = Some 0"
  by (induction k) (simp_all add: digit_of_zero)

lemma parse_nat_zero_pad: "parse_nat (zero_pad w (str_nat n)) = Some n"
  by (simp add: parse_nat_def zero_pad_def str_nat_nonempty parse_nat_acc_append
      parse_nat_acc_zeros parse_nat_acc_str_nat)

lemma parse_nat_acc_shift:
  "parse_nat_acc 0 s = Some v \<Longrightarrow> parse_nat_acc a s = Some (a * 10 ^ length s + v)"
proof (induction s arbitrary: a v rule: rev_induct)
  case Nil
  then show ?case by simp
next
  case (snoc c s)
  from snoc.prems obtain u d where u: "parse_nat_acc 0 s = Some u" and d: "digit_of c = Some d"
    and v: "v = 10 * u + d"
    by (auto simp: parse_nat_acc_append split: option.splits)
  from snoc.IH [OF u] have "parse_nat_acc a s = Some (a * 10 ^ length s + u)" .
  then show ?case using d v by (simp add: parse_nat_acc_append algebra_simps)
qed

lemma length_str_nat_le3: "n < 1000 \<Longrightarrow> length (str_nat n) \<le> 3"
proof -
  assume n: "n < 1000"
  have a: "\<And>m. m < 10 \<Longrightarrow> length (str_nat m) = 1" by (simp add: str_nat.simps)
  have b: "\<And>m. m < 100 \<Longrightarrow> length (str_nat m) \<le> 2"
    subgoal for m using a [of "m div 10"] a [of m] by (cases "m < 10") (simp_all add: str_nat.simps [of m])
    done
  show ?thesis
    using b [of "n div 10"] a [of n] n by (cases "n < 10") (simp_all add: str_nat.simps [of n])
qed

lemma length_zero_pad: "length (zero_pad w s) = max w (length s)"
  by (simp add: zero_pad_def)

lemma parse_nat_acc_zero_pad: "parse_nat_acc 0 (zero_pad w (str_nat n)) = Some n"
  by (simp add: zero_pad_def parse_nat_acc_append parse_nat_acc_zeros parse_nat_acc_str_nat)

lemma parse_thousands: "parse_nat_acc 0 (filter (\<lambda>x. x \<noteq> CHR '','') (thousands n)) = Some n"
proof (induction n rule: thousands.induct)
  case (1 n)
  have nc: "\<And>m w. filter (\<lambda>x. x \<noteq> CHR '','') (zero_pad w (str_nat m)) = zero_pad w (str_nat m)"
    using digit_of_zero_pad digit_of_not_special by (intro filter_True) blast
  have nc0: "\<And>m. filter (\<lambda>x. x \<noteq> CHR '','') (str_nat m) = str_nat m"
    using digit_of_str_nat digit_of_not_special by (intro filter_True) blast
  show ?case
  proof (cases "n < 1000")
    case True
    then show ?thesis by (simp add: thousands.simps [of n] nc0 parse_nat_acc_str_nat)
  next
    case False
    have len: "length (zero_pad 3 (str_nat (n mod 1000))) = 3"
      using length_str_nat_le3 [of "n mod 1000"] by (simp add: length_zero_pad)
    have "parse_nat_acc (n div 1000) (zero_pad 3 (str_nat (n mod 1000)))
        = Some (n div 1000 * 10 ^ 3 + n mod 1000)"
      using parse_nat_acc_shift [OF parse_nat_acc_zero_pad, of "n div 1000" 3 "n mod 1000"] len
      by simp
    then show ?thesis
      using "1.IH" False by (simp add: thousands.simps [of n] nc parse_nat_acc_append)
  qed
qed

lemma thousands_nonempty: "thousands n \<noteq> []"
  by (cases "n < 1000") (simp_all add: thousands.simps [of n] str_nat_nonempty)

lemma split_bar_last: "CHR ''|'' \<notin> set u \<Longrightarrow> split_on '' | '' cur u = [cur @ u]"
proof (induction u arbitrary: cur)
  case Nil
  then show ?case by simp
next
  case (Cons x u)
  have "take (length '' | '') (x # u) \<noteq> '' | ''"
  proof
    assume eq: "take (length '' | '') (x # u) = '' | ''"
    have "CHR ''|'' \<in> set '' | ''" by simp
    then have "CHR ''|'' \<in> set (take (length '' | '') (x # u))" by (simp only: eq)
    then have "CHR ''|'' \<in> set (x # u)" by (rule in_set_takeD)
    with Cons.prems show False by simp
  qed
  then have "split_on '' | '' cur (x # u) = split_on '' | '' (cur @ [x]) u"
    by (simp only: split_on.simps if_False)
  also have "\<dots> = [(cur @ [x]) @ u]"
    using Cons.prems by (intro Cons.IH) simp
  finally show ?case by simp
qed

lemma split_bar_step:
  "CHR ''|'' \<notin> set u \<Longrightarrow> split_on '' | '' cur (u @ '' | '' @ r) = (cur @ u) # split_on '' | '' [] r"
proof (induction u arbitrary: cur)
  case Nil
  then show ?case by simp
next
  case (Cons x u)
  have "take (length '' | '') (x # u @ '' | '' @ r) \<noteq> '' | ''"
  proof
    assume eq: "take (length '' | '') (x # u @ '' | '' @ r) = '' | ''"
    have "take (length '' | '') (x # u @ '' | '' @ r) ! 1 = (x # u @ '' | '' @ r) ! 1"
      by (rule nth_take) simp
    then have "(x # u @ '' | '' @ r) ! 1 = '' | '' ! 1" by (simp only: eq)
    then have "(u @ '' | '' @ r) ! 0 = CHR ''|''" by simp
    with Cons.prems show False by (cases u) simp_all
  qed
  then have "split_on '' | '' cur ((x # u) @ '' | '' @ r)
      = split_on '' | '' (cur @ [x]) (u @ '' | '' @ r)"
    by (simp only: split_on.simps if_False append_Cons)
  also have "\<dots> = ((cur @ [x]) @ u) # split_on '' | '' [] r"
    using Cons.prems by (intro Cons.IH) simp
  finally show ?case by simp
qed

lemma split_colon_last: "CHR '':'' \<notin> set u \<Longrightarrow> split_on '': '' cur u = [cur @ u]"
  by (induction u arbitrary: cur) (auto simp: numeral_2_eq_2)

lemma split_colon_step:
  "CHR '':'' \<notin> set u \<Longrightarrow> split_on '': '' cur (u @ '': '' @ r) = (cur @ u) # split_on '': '' [] r"
  by (induction u arbitrary: cur) (auto simp: numeral_2_eq_2)

lemma py_split_field:
  "CHR '':'' \<notin> set l \<Longrightarrow> CHR '':'' \<notin> set v \<Longrightarrow> py_split '': '' (l @ '': '' @ v) = [l, v]"
  using split_colon_step [of l "[]" v] by (simp add: py_split_def split_colon_last)

lemma py_split_six:
  assumes "CHR ''|'' \<notin> set a" "CHR ''|'' \<notin> set b" "CHR ''|'' \<notin> set c"
    "CHR ''|'' \<notin> set d" "CHR ''|'' \<notin> set e" "CHR ''|'' \<notin> set f"
  shows "py_split '' | '' (a @ '' | '' @ b @ '' | '' @ c @ '' | '' @ d @ '' | '' @ e @ '' | '' @ f)
         = [a, b, c, d, e, f]"
proof -
  have "split_on '' | '' [] (e @ '' | '' @ f) = [e, f]"
    using split_bar_step [of e "[]" f] assms by (simp add: split_bar_last)
  then have "split_on '' | '' [] (d @ '' | '' @ e @ '' | '' @ f) = [d, e, f]"
    using split_bar_step [of d "[]" "e @ '' | '' @ f"] assms by simp
  then have "split_on '' | '' [] (c @ '' | '' @ d @ '' | '' @ e @ '' | '' @ f) = [c, d, e, f]"
    using split_bar_step [of c "[]" "d @ '' | '' @ e @ '' | '' @ f"] assms by simp
  then have "split_on '' | '' [] (b @ '' | '' @ c @ '' | '' @ d @ '' | '' @ e @ '' | '' @ f)
      = [b, c, d, e, f]"
    using split_bar_step [of b "[]" "c @ '' | '' @ d @ '' | '' @ e @ '' | '' @ f"] assms by simp
  then show ?thesis
    using split_bar_step [of a "[]" "b @ '' | '' @ c @ '' | '' @ d @ '' | '' @ e @ '' | '' @ f"] assms
    by (simp add: py_split_def)
qed

lemma dept_chars: "d \<in> set departments \<Longrightarrow> CHR ''|'' \<notin> set d \<and> CHR '':'' \<notin> set d"
  by (auto simp: departments_def)

lemma position_chars: "p \<in> set positions \<Longrightarrow> CHR ''|'' \<notin> set p \<and> CHR '':'' \<notin> set p"
  by (auto simp: positions_def)

lemma str_nat_chars: "CHR ''|'' \<notin> set (str_nat n) \<and> CHR '':'' \<notin> set (str_nat n)"
  using digit_of_str_nat digit_of_not_special by blast

lemma zero_pad_chars: "CHR ''|'' \<notin> set (zero_pad w (str_nat n)) \<and> CHR '':'' \<notin> set (zero_pad w (str_nat n))"
  using digit_of_zero_pad digit_of_not_special by blast

lemma thousands_no_special: "CHR ''|'' \<notin> set (thousands n) \<and> CHR '':'' \<notin> set (thousands n)"
  using thousands_chars [of _ n] digit_of_not_special by blast

lemma employee_line_fields:
  "employee_line i p d s m n =
     (''ID'' @ '': '' @ zero_pad 5 (str_nat i)) @ '' | '' @
     (''Name'' @ '': '' @ name_value i p d) @ '' | '' @
     (''Email'' @ '': '' @ email_value i) @ '' | '' @
     (''Department'' @ '': '' @ d) @ '' | '' @
     (''Salary'' @ '': '' @ salary_value s) @ '' | '' @
     (''Hire Date'' @ '': '' @ date_value m n)"
  by (simp add: employee_line_def name_value_def email_value_def salary_value_def date_value_def)

lemma value_chars:
  assumes "d \<in> set departments" "p \<in> set positions"
  shows "CHR ''|'' \<notin> set (name_value i p d) \<and> CHR '':'' \<notin> set (name_value i p d)"
    and "CHR ''|'' \<notin> set (email_value i) \<and> CHR '':'' \<notin> set (email_value i)"
    and "CHR ''|'' \<notin> set (salary_value s) \<and> CHR '':'' \<notin> set (salary_value s)"
    and "CHR ''|'' \<notin> set (date_value m n) \<and> CHR '':'' \<notin> set (date_value m n)"
  using dept_chars [OF assms(1)] position_chars [OF assms(2)]
  by (simp_all add: name_value_def email_value_def salary_value_def date_value_def
      str_nat_chars zero_pad_chars thousands_no_special)

lemma parse_record_employee_line:
  assumes "d \<in> set departments" "p \<in> set positions"
  shows "parse_record (employee_line i p d s m n) =
     [[''ID'', zero_pad 5 (str_nat i)], [''Name'', name_value i p d],
      [''Email'', email_value i], [''Department'', d],
      [''Salary'', salary_value s], [''Hire Date'', date_value m n]]"
proof -
  note vc = value_chars [OF assms] dept_chars [OF assms(1)] zero_pad_chars
  have "py_split '' | '' (employee_line i p d s m n) =
     [''ID'' @ '': '' @ zero_pad 5 (str_nat i), ''Name'' @ '': '' @ name_value i p d,
      ''Email'' @ '': '' @ email_value i, ''Department'' @ '': '' @ d,
      ''Salary'' @ '': '' @ salary_value s, ''Hire Date'' @ '': '' @ date_value m n]"
    unfolding employee_line_fields
    by (rule py_split_six) (simp_all add: vc)
  moreover have "py_split '': '' (''ID'' @ '': '' @ zero_pad 5 (str_nat i)) = [''ID'', zero_pad 5 (str_nat i)]"
    by (rule py_split_field) (simp_all add: vc)
  moreover have "py_split '': '' (''Name'' @ '': '' @ name_value i p d) = [''Name'', name_value i p d]"
    by (rule py_split_field) (simp_all add: vc)
  moreover have "py_split '': '' (''Email'' @ '': '' @ email_value i) = [''Email'', email_value i]"
    by (rule py_split_field) (simp_all add: vc)
  moreover have "py_split '': '' (''Department'' @ '': '' @ d) = [''Department'', d]"
    by (rule py_split_field) (simp_all add: vc)
  moreover have "py_split '': '' (''Salary'' @ '': '' @ salary_value s) = [''Salary'', salary_value s]"
    by (rule py_split_field) (simp_all add: vc)
  moreover have "py_split '': '' (''Hire Date'' @ '': '' @ date_value m n) = [''Hire Date'', date_value m n]"
    by (rule py_split_field) (simp_all add: vc)
  ultimately show ?thesis
    by (simp only: parse_record_def list.map)
qed



section \<open>Properties of the generator\<close>

lemma advance_advance: "advance m (advance n g) = advance (m + n) g"
  by (simp add: advance_def add.assoc)

lemma snd_draw: "snd (draw g) = advance 5 g"
proof -
  have "snd (draw g) = advance 1 (advance 1 (advance 1 (advance 1 (advance 1 g))))"
    by (simp add: draw_def choice_def randint_def randbelow_def split_def)
  then show ?thesis by (simp add: advance_def eval_nat_numeral)
qed

lemma draws_at_advance: "draws_at (advance 5 g) k = draws_at g (Suc k)"
  by (simp add: draws_at_def advance_advance add.commute)

lemma draws_at_0: "draws_at g 0 = fst (draw g)"
  by (simp add: draws_at_def advance_def)

lemma generate_loop_eq:
  "generate_loop idxs acc g =
     (acc @ map (\<lambda>k. employee_data (idxs ! k) (draws_at g k)) [0..<length idxs],
      advance (5 * length idxs) g)"
proof (induction idxs arbitrary: acc g)
  case Nil
  then show ?case by (simp add: advance_def)
next
  case (Cons i rest)
  have "generate_loop (i # rest) acc g
      = generate_loop rest (acc @ [employee_data i (fst (draw g))]) (snd (draw g))"
    by (simp add: split_def Let_def)
  also have "\<dots> = ((acc @ [employee_data i (draws_at g 0)])
        @ map (\<lambda>k. employee_data (rest ! k) (draws_at g (Suc k))) [0..<length rest],
      advance (5 * length rest + 5) g)"
    by (simp only: Cons.IH snd_draw draws_at_advance advance_advance draws_at_0)
  finally show ?case
    by (simp add: map_upt_Suc add.commute del: upt_Suc)
qed

lemma generate_range:
  "fst (generate_loop [1..<Suc n] [] g) = map (\<lambda>k. employee_data (Suc k) (draws_at g k)) [0..<n]"
  by (simp add: generate_loop_eq del: upt_Suc)

lemma generate_sample_data_eq:
  "generate_sample_data g = map (\<lambda>k. employee_data (Suc k) (draws_at g k)) [0..<10000]"
proof -
  have "[1..<10001] = [1..<Suc 10000]" by simp
  then show ?thesis
    unfolding generate_sample_data_def by (simp only: generate_range)
qed

lemma generate_sample_data_nth:
  "k < 10000 \<Longrightarrow> generate_sample_data g ! k = employee_data (Suc k) (draws_at g k)"
  by (simp add: generate_sample_data_eq)

lemma length_departments: "length departments = 6"
  by (simp add: departments_def)

lemma length_positions: "length positions = 6"
  by (simp add: positions_def)

lemma draw_members:
  "dept (draws_at g k) \<in> set departments" "position (draws_at g k) \<in> set positions"
  by (simp_all add: draws_at_def draw_def choice_def randint_def randbelow_def split_def
      length_departments length_positions)

lemma draw_bounds:
  "45000 \<le> salary (draws_at g k)" "salary (draws_at g k) \<le> 150000"
  "1 \<le> month (draws_at g k)" "month (draws_at g k) \<le> 12"
  "1 \<le> day (draws_at g k)" "day (draws_at g k) \<le> 28"
  by (simp_all add: draws_at_def draw_def choice_def randint_def randbelow_def split_def)

lemma parse_record_employee_data:
  "parse_record (employee_data i (draws_at g k)) =
     [[''ID'', zero_pad 5 (str_nat i)],
      [''Name'', name_value i (position (draws_at g k)) (dept (draws_at g k))],
      [''Email'', email_value i], [''Department'', dept (draws_at g k)],
      [''Salary'', salary_value (salary (draws_at g k))],
      [''Hire Date'', date_value (month (draws_at g k)) (day (draws_at g k))]]"
  unfolding employee_data_def
  by (rule parse_record_employee_line) (rule draw_members)+

lemma field_values_employee_data:
  "field_value ''ID'' (employee_data i (draws_at g k)) = Some (zero_pad 5 (str_nat i))"
  "field_value ''Department'' (employee_data i (draws_at g k)) = Some (dept (draws_at g k))"
  "field_value ''Salary'' (employee_data i (draws_at g k)) = Some (salary_value (salary (draws_at g k)))"
  "field_value ''Hire Date'' (employee_data i (draws_at g k))
     = Some (date_value (month (draws_at g k)) (day (draws_at g k)))"
  "field_value ''Email'' (employee_data i (draws_at g k)) = Some (email_value i)"
  by (simp_all add: field_value_def parse_record_employee_data)

lemma line_id_employee_data: "line_id (employee_data i (draws_at g k)) = Some i"
  by (simp add: line_id_def field_values_employee_data parse_nat_zero_pad)

lemma parse_salary_value: "parse_salary (salary_value s) = Some s"
proof -
  have "filter (\<lambda>x. x \<noteq> CHR '','') (thousands s) \<noteq> []"
  proof (cases "s = 0")
    case True
    have "filter (\<lambda>x. x \<noteq> CHR '','') (str_nat 0) = str_nat 0"
      using digit_of_str_nat digit_of_not_special by (intro filter_True) blast
    with True show ?thesis
      by (simp add: thousands.simps [of 0] str_nat_nonempty)
  next
    case False
    then show ?thesis using parse_thousands [of s] by auto
  qed
  then show ?thesis
    by (simp add: parse_salary_def salary_value_def parse_nat_def parse_thousands)
qed

lemma line_salary_employee_data:
  "line_salary (employee_data i (draws_at g k)) = Some (salary (draws_at g k))"
  by (simp add: line_salary_def field_values_employee_data parse_salary_value)

lemma length_str_nat_le2: "n < 100 \<Longrightarrow> length (str_nat n) \<le> 2"
proof -
  assume "n < 100"
  then have "n div 10 < 10" by simp
  then show ?thesis
    by (cases "n < 10") (simp_all add: str_nat.simps [of n] str_nat.simps [of "n div 10"])
qed

lemma map_Suc_shift: "map (\<lambda>k. f (Suc k)) [0..<m] = map f [1..<Suc m]"
proof -
  have "map (\<lambda>k. f (Suc k)) [0..<m] = map f (map Suc [0..<m])"
    by (simp add: o_def del: upt_Suc)
  also have "\<dots> = map f [1..<Suc m]"
    by (simp only: map_Suc_upt One_nat_def)
  finally show ?thesis .
qed

lemma generate_loop_ids:
  "map line_id (fst (generate_loop [1..<Suc m] [] g)) = map Some [1..<Suc m]"
proof -
  have "map line_id (fst (generate_loop [1..<Suc m] [] g)) = map (\<lambda>k. Some (Suc k)) [0..<m]"
    unfolding generate_range by (simp add: line_id_employee_data o_def del: upt_Suc)
  then show ?thesis by (simp only: map_Suc_shift)
qed

lemma generate_sample_data_ids:
  "map line_id (generate_sample_data g) = map Some [1..<10001]"
proof -
  have e: "Suc 10000 = 10001" by simp
  show ?thesis
    using generate_loop_ids [of 10000 g] by (simp only: generate_sample_data_def e)
qed

lemma length_generate_sample_data: "length (generate_sample_data g) = 10000"
proof -
  have "length (map line_id (generate_sample_data g)) = length (map Some [1..<10001])"
    by (simp only: generate_sample_data_ids)
  then show ?thesis by (simp only: length_map length_upt)
qed

section \<open>Properties of the streaming handler\<close>

lemma emit_loop_step:
  "emit_loop e ((i, l) # rest) out con =
     (case iteration_raises e i of
        Some x \<Rightarrow> (Raised x, out @ [LargeDataLine l], con)
      | None \<Rightarrow>
          emit_loop e rest (out @ [LargeDataLine l])
            (if (i + 1) mod 2500 = 0
             then con @ [Progress (i + 1) (progress_time e (i + 1) - start_time e)]
             else con))"
  by (simp add: iteration_raises_def py_print_def split: signal.splits option.splits)

lemma emit_loop_clean:
  "\<forall>j < length xs. iteration_raises e (off + j) = None \<Longrightarrow>
   fst (emit_loop e (enumerate off xs) out con) = Exhausted
   \<and> fst (snd (emit_loop e (enumerate off xs) out con)) = out @ map LargeDataLine xs"
proof (induction xs arbitrary: off out con)
  case Nil
  then show ?case by simp
next
  case (Cons x xs)
  have r: "iteration_raises e off = None" using Cons.prems by auto
  have "\<forall>j < length xs. iteration_raises e (Suc off + j) = None"
    using Cons.prems by auto
  from Cons.IH [OF this] show ?case
    by (simp only: enumerate_simps emit_loop_step r option.case) simp
qed

lemma emit_loop_raise:
  "k < length xs \<Longrightarrow> \<forall>j < k. iteration_raises e (off + j) = None \<Longrightarrow>
   iteration_raises e (off + k) = Some x \<Longrightarrow>
   fst (emit_loop e (enumerate off xs) out con) = Raised x
   \<and> fst (snd (emit_loop e (enumerate off xs) out con))
       = out @ map LargeDataLine (take (Suc k) xs)"
proof (induction xs arbitrary: off out con k)
  case Nil
  then show ?case by simp
next
  case (Cons y xs)
  show ?case
  proof (cases k)
    case 0
    with Cons.prems have "iteration_raises e off = Some x" by simp
    then show ?thesis
      using 0 by (simp only: enumerate_simps emit_loop_step option.case) simp
  next
    case (Suc k')
    have r: "iteration_raises e off = None" using Cons.prems(2) Suc by auto
    have a: "k' < length xs" using Cons.prems(1) Suc by simp
    have b: "\<forall>j < k'. iteration_raises e (Suc off + j) = None"
      using Cons.prems(2) Suc by auto
    have c: "iteration_raises e (Suc off + k') = Some x" using Cons.prems(3) Suc by simp
    from Cons.IH [OF a b c] show ?thesis
      using Suc by (simp only: enumerate_simps emit_loop_step r option.case) simp
  qed
qed

lemma emit_loop_frames_prefix:
  "\<exists>m. fst (snd (emit_loop e (enumerate off xs) out con)) = out @ map LargeDataLine (take m xs)"
proof (induction xs arbitrary: off out con)
  case Nil
  then show ?case by simp
next
  case (Cons x xs)
  show ?case
  proof (cases "iteration_raises e off")
    case None
    obtain con' where c: "con' = (if (off + 1) mod 2500 = 0
             then con @ [Progress (off + 1) (progress_time e (off + 1) - start_time e)]
             else con)" by simp
    from Cons.IH [of "Suc off" "out @ [LargeDataLine x]" con'] obtain m where
      "fst (snd (emit_loop e (enumerate (Suc off) xs) (out @ [LargeDataLine x]) con'))
       = (out @ [LargeDataLine x]) @ map LargeDataLine (take m xs)"
      by blast
    then have "fst (snd (emit_loop e (enumerate off (x # xs)) out con))
       = out @ map LargeDataLine (take (Suc m) (x # xs))"
      unfolding c by (simp only: enumerate_simps emit_loop_step None option.case) simp
    then show ?thesis by blast
  next
    case (Some y)
    then have "fst (snd (emit_loop e (enumerate off (x # xs)) out con))
       = out @ map LargeDataLine (take (Suc 0) (x # xs))"
      by (simp only: enumerate_simps emit_loop_step option.case) simp
    then show ?thesis by blast
  qed
qed

lemma emit_loop_no_progress_clean:
  "\<forall>j < length xs. at_yield e (off + j) = Resume \<Longrightarrow>
   fst (emit_loop_no_progress e (enumerate off xs) out con) = Exhausted
   \<and> fst (snd (emit_loop_no_progress e (enumerate off xs) out con)) = out @ map LargeDataLine xs"
proof (induction xs arbitrary: off out con)
  case Nil
  then show ?case by simp
next
  case (Cons x xs)
  have r: "at_yield e off = Resume" using Cons.prems by auto
  have "\<forall>j < length xs. at_yield e (Suc off + j) = Resume"
    using Cons.prems by auto
  from Cons.IH [OF this] show ?case by (simp add: r)
qed

lemma emit_loop_no_progress_eq:
  assumes "\<forall>n. at_print e (AtProgress n) = None"
  shows "fst (emit_loop_no_progress e xs out (filter (\<lambda>c. \<not> is_progress c) con))
     = fst (emit_loop e xs out con)
   \<and> fst (snd (emit_loop_no_progress e xs out (filter (\<lambda>c. \<not> is_progress c) con)))
     = fst (snd (emit_loop e xs out con))
   \<and> snd (snd (emit_loop_no_progress e xs out (filter (\<lambda>c. \<not> is_progress c) con)))
     = filter (\<lambda>c. \<not> is_progress c) (snd (snd (emit_loop e xs out con)))"
proof (induction xs arbitrary: out con)
  case Nil
  then show ?case by simp
next
  case (Cons p xs)
  obtain i l where p: "p = (i, l)" by (cases p)
  show ?case
  proof (cases "at_yield e i")
    case Resume
    show ?thesis
      using Cons.IH [of "out @ [LargeDataLine l]" con]
        Cons.IH [of "out @ [LargeDataLine l]"
          "con @ [Progress (i + 1) (progress_time e (i + 1) - start_time e)]"] assms
      by (simp add: p Resume py_print_def)
  next
    case (Raise x)
    then show ?thesis by (simp add: p)
  qed
qed

lemma StreamLargeData_started:
  "at_print e AtStart = None \<Longrightarrow> at_print e AtCount = None \<Longrightarrow>
   StreamLargeData s r c e
     = finish_stream e (length (employees s)) c
         (emit_loop e (enumerate 0 (employees s)) [] [Starting, Streaming (length (employees s))])"
  by (simp add: StreamLargeData_def py_print_def Let_def)

lemma StreamLargeData_no_progress_started:
  "at_print e AtStart = None \<Longrightarrow> at_print e AtCount = None \<Longrightarrow>
   StreamLargeData_no_progress s r c e
     = finish_stream e (length (employees s)) c
         (emit_loop_no_progress e (enumerate 0 (employees s)) []
            [Starting, Streaming (length (employees s))])"
  by (simp add: StreamLargeData_no_progress_def py_print_def Let_def)

lemma except_clause_frames: "frames (except_clause e x out con c) = out"
  by (simp add: except_clause_def py_print_def split: py_exception.splits option.splits)

lemma finish_stream_frames: "frames (finish_stream e n c r) = fst (snd r)"
  by (cases r)
    (simp add: finish_stream_def except_clause_frames py_print_def Let_def
      split: loop_exit.splits option.splits)

lemma finish_stream_caught:
  assumes "fst r = Raised (Exception m)" and "at_print e AtError = None"
  shows "ending (finish_stream e n c r) = Returned"
    and "final_context (finish_stream e n c r)
          = set_code INTERNAL (set_details (''Streaming error: '' @ m) c)"
  using assms
  by (cases r; simp add: finish_stream_def except_clause_def py_print_def)+

lemma finish_stream_passed:
  assumes "fst r = Raised (BaseException b)"
  shows "ending (finish_stream e n c r) = Propagated (BaseException b)"
    and "final_context (finish_stream e n c r) = c"
  using assms
  by (cases r; simp add: finish_stream_def except_clause_def)+

lemma finish_stream_completed:
  assumes "fst r = Exhausted" and "at_print e AtCompleted = None"
    and "at_print e AtThroughput = None" and "end_time e \<noteq> start_time e"
  shows "ending (finish_stream e n c r) = Returned"
    and "final_context (finish_stream e n c r) = c"
  using assms
  by (cases r; simp add: finish_stream_def py_print_def Let_def)+

lemma finish_stream_zero_elapsed:
  assumes "fst r = Exhausted" and "at_print e AtCompleted = None"
    and "at_print e AtError = None" and "end_time e = start_time e"
  shows "ending (finish_stream e n c r) = Returned"
    and "final_context (finish_stream e n c r)
          = set_code INTERNAL (set_details ''Streaming error: float division by zero'' c)"
  using assms
  by (cases r; simp add: finish_stream_def except_clause_def py_print_def Let_def)+



lemma except_clause_console:
  "frames (except_clause e x out (filter (\<lambda>l. \<not> is_progress l) con) c)
     = frames (except_clause e x out con c)
   \<and> final_context (except_clause e x out (filter (\<lambda>l. \<not> is_progress l) con) c)
     = final_context (except_clause e x out con c)
   \<and> ending (except_clause e x out (filter (\<lambda>l. \<not> is_progress l) con) c)
     = ending (except_clause e x out con c)
   \<and> console (except_clause e x out (filter (\<lambda>l. \<not> is_progress l) con) c)
     = filter (\<lambda>l. \<not> is_progress l) (console (except_clause e x out con c))"
  by (cases x; cases "at_print e AtError") (simp_all add: except_clause_def py_print_def)

lemma finish_stream_console:
  "frames (finish_stream e n c (x, out, filter (\<lambda>l. \<not> is_progress l) con))
     = frames (finish_stream e n c (x, out, con))
   \<and> final_context (finish_stream e n c (x, out, filter (\<lambda>l. \<not> is_progress l) con))
     = final_context (finish_stream e n c (x, out, con))
   \<and> ending (finish_stream e n c (x, out, filter (\<lambda>l. \<not> is_progress l) con))
     = ending (finish_stream e n c (x, out, con))
   \<and> console (finish_stream e n c (x, out, filter (\<lambda>l. \<not> is_progress l) con))
     = filter (\<lambda>l. \<not> is_progress l) (console (finish_stream e n c (x, out, con)))"
proof (cases x)
  case (Raised y)
  then show ?thesis
    using except_clause_console [of e y out con c] by (simp add: finish_stream_def)
next
  case Exhausted
  let ?t = "end_time e - start_time e"
  have c1: "filter (\<lambda>l. \<not> is_progress l) (con @ [Completed n ?t])
      = filter (\<lambda>l. \<not> is_progress l) con @ [Completed n ?t]" by simp
  show ?thesis
  proof (cases "at_print e AtCompleted")
    case (Some y)
    then show ?thesis
      using except_clause_console [of e y out con c]
      by (simp add: Exhausted finish_stream_def py_print_def Let_def)
  next
    case None
    show ?thesis
    proof (cases "?t = 0")
      case True
      then show ?thesis
        using except_clause_console [of e "Exception ''float division by zero''" out
            "con @ [Completed n ?t]" c]
        by (simp add: Exhausted finish_stream_def py_print_def Let_def None)
    next
      case False
      show ?thesis
      proof (cases "at_print e AtThroughput")
        case (Some y)
        then show ?thesis
          using except_clause_console [of e y out "con @ [Completed n ?t]" c] False
          by (simp add: Exhausted finish_stream_def py_print_def Let_def None)
      next
        case None': None
        then show ?thesis
          using False by (simp add: Exhausted finish_stream_def py_print_def Let_def None)
      qed
    qed
  qed
qed

lemma stream_clean:
  assumes "at_print e AtStart = None" and "at_print e AtCount = None"
    and "\<forall>j < length (employees s). iteration_raises e j = None"
  shows "frames (StreamLargeData s r c e) = map LargeDataLine (employees s)"
    and "at_print e AtCompleted = None \<Longrightarrow> at_print e AtThroughput = None \<Longrightarrow>
         end_time e \<noteq> start_time e \<Longrightarrow>
         ending (StreamLargeData s r c e) = Returned \<and> final_context (StreamLargeData s r c e) = c"
    and "at_print e AtCompleted = None \<Longrightarrow> at_print e AtError = None \<Longrightarrow>
         end_time e = start_time e \<Longrightarrow>
         ending (StreamLargeData s r c e) = Returned
         \<and> final_context (StreamLargeData s r c e)
             = set_code INTERNAL (set_details ''Streaming error: float division by zero'' c)"
proof -
  let ?L = "emit_loop e (enumerate 0 (employees s)) [] [Starting, Streaming (length (employees s))]"
  have "\<forall>j < length (employees s). iteration_raises e (0 + j) = None"
    using assms(3) by simp
  note l = emit_loop_clean [OF this, of "[]" "[Starting, Streaming (length (employees s))]"]
  have st: "StreamLargeData s r c e = finish_stream e (length (employees s)) c ?L"
    using assms(1,2) by (rule StreamLargeData_started)
  show "frames (StreamLargeData s r c e) = map LargeDataLine (employees s)"
    using l by (simp add: st finish_stream_frames)
  show "at_print e AtCompleted = None \<Longrightarrow> at_print e AtThroughput = None \<Longrightarrow>
         end_time e \<noteq> start_time e \<Longrightarrow>
         ending (StreamLargeData s r c e) = Returned \<and> final_context (StreamLargeData s r c e) = c"
    using l by (simp add: st finish_stream_completed)
  show "at_print e AtCompleted = None \<Longrightarrow> at_print e AtError = None \<Longrightarrow>
         end_time e = start_time e \<Longrightarrow>
         ending (StreamLargeData s r c e) = Returned
         \<and> final_context (StreamLargeData s r c e)
             = set_code INTERNAL (set_details ''Streaming error: float division by zero'' c)"
    using l by (simp add: st finish_stream_zero_elapsed)
qed

lemma stream_raised:
  assumes "at_print e AtStart = None" and "at_print e AtCount = None"
    and "k < length (employees s)"
    and "\<forall>j < k. iteration_raises e j = None"
    and "iteration_raises e k = Some x"
  shows "frames (StreamLargeData s r c e) = map LargeDataLine (take (Suc k) (employees s))"
    and "x = Exception m \<Longrightarrow> at_print e AtError = None \<Longrightarrow>
         ending (StreamLargeData s r c e) = Returned
         \<and> final_context (StreamLargeData s r c e)
             = set_code INTERNAL (set_details (''Streaming error: '' @ m) c)"
    and "x = BaseException b \<Longrightarrow>
         ending (StreamLargeData s r c e) = Propagated x
         \<and> final_context (StreamLargeData s r c e) = c"
proof -
  let ?L = "emit_loop e (enumerate 0 (employees s)) [] [Starting, Streaming (length (employees s))]"
  have a: "\<forall>j < k. iteration_raises e (0 + j) = None" using assms(4) by simp
  have b: "iteration_raises e (0 + k) = Some x" using assms(5) by simp
  note l = emit_loop_raise [OF assms(3) a b, of "[]" "[Starting, Streaming (length (employees s))]"]
  have st: "StreamLargeData s r c e = finish_stream e (length (employees s)) c ?L"
    using assms(1,2) by (rule StreamLargeData_started)
  show "frames (StreamLargeData s r c e) = map LargeDataLine (take (Suc k) (employees s))"
    using l by (simp add: st finish_stream_frames)
  show "x = Exception m \<Longrightarrow> at_print e AtError = None \<Longrightarrow>
         ending (StreamLargeData s r c e) = Returned
         \<and> final_context (StreamLargeData s r c e)
             = set_code INTERNAL (set_details (''Streaming error: '' @ m) c)"
    using l by (simp add: st finish_stream_caught)
  show "x = BaseException b \<Longrightarrow>
         ending (StreamLargeData s r c e) = Propagated x
         \<and> final_context (StreamLargeData s r c e) = c"
    using l by (simp add: st finish_stream_passed)
qed


lemma stream_frames_prefix:
  "frames (StreamLargeData s r c e)
     = map LargeDataLine (take (length (frames (StreamLargeData s r c e))) (employees s))"
proof -
  have p: "\<exists>m. frames (StreamLargeData s r c e) = map LargeDataLine (take m (employees s))"
  proof (cases "at_print e AtStart = None \<and> at_print e AtCount = None")
    case True
    then show ?thesis
      using emit_loop_frames_prefix [of e 0 "employees s" "[]"]
      by (simp add: StreamLargeData_started finish_stream_frames)
  next
    case False
    then have "frames (StreamLargeData s r c e) = map LargeDataLine (take 0 (employees s))"
      by (auto simp: StreamLargeData_def py_print_def Let_def split: option.splits)
    then show ?thesis by blast
  qed
  then obtain m where m: "frames (StreamLargeData s r c e) = map LargeDataLine (take m (employees s))"
    by blast
  have "take (length (take m (employees s))) (employees s) = take m (employees s)"
    by (simp add: min_def take_all)
  then show ?thesis by (simp add: m)
qed

lemma stream_no_progress_clean:
  assumes "at_print e AtStart = None" and "at_print e AtCount = None"
    and "\<forall>j < length (employees s). at_yield e j = Resume"
  shows "frames (StreamLargeData_no_progress s r c e) = map LargeDataLine (employees s)"
proof -
  have "\<forall>j < length (employees s). at_yield e (0 + j) = Resume"
    using assms(3) by simp
  note l = emit_loop_no_progress_clean [OF this, of "[]" "[Starting, Streaming (length (employees s))]"]
  show ?thesis
    using l by (simp add: StreamLargeData_no_progress_started [OF assms(1,2)] finish_stream_frames)
qed

lemma stream_no_progress:
  assumes "\<forall>n. at_print e (AtProgress n) = None"
  shows "frames (StreamLargeData_no_progress s r c e) = frames (StreamLargeData s r c e)"
    and "final_context (StreamLargeData_no_progress s r c e) = final_context (StreamLargeData s r c e)"
    and "ending (StreamLargeData_no_progress s r c e) = ending (StreamLargeData s r c e)"
    and "console (StreamLargeData_no_progress s r c e)
          = filter (\<lambda>l. \<not> is_progress l) (console (StreamLargeData s r c e))"
proof -
  let ?c0 = "[Starting, Streaming (length (employees s))]"
  let ?L = "emit_loop e (enumerate 0 (employees s)) [] ?c0"
  let ?N = "emit_loop_no_progress e (enumerate 0 (employees s)) [] ?c0"
  have f: "filter (\<lambda>l. \<not> is_progress l) ?c0 = ?c0" by simp
  note q = emit_loop_no_progress_eq [OF assms, of "enumerate 0 (employees s)" "[]" ?c0,
      unfolded f]
  have N: "?N = (fst ?L, fst (snd ?L), filter (\<lambda>l. \<not> is_progress l) (snd (snd ?L)))"
    using q by (metis prod.collapse)
  have L: "?L = (fst ?L, fst (snd ?L), snd (snd ?L))" by simp
  note k = finish_stream_console [of e "length (employees s)" c "fst ?L" "fst (snd ?L)"
      "snd (snd ?L)", folded N, unfolded prod.collapse]
  show "frames (StreamLargeData_no_progress s r c e) = frames (StreamLargeData s r c e)"
    and "final_context (StreamLargeData_no_progress s r c e) = final_context (StreamLargeData s r c e)"
    and "ending (StreamLargeData_no_progress s r c e) = ending (StreamLargeData s r c e)"
    and "console (StreamLargeData_no_progress s r c e)
          = filter (\<lambda>l. \<not> is_progress l) (console (StreamLargeData s r c e))"
    using k
    by (auto simp: StreamLargeData_def StreamLargeData_no_progress_def py_print_def Let_def
        split: option.splits)
qed


lemma reading_all_clean: "\<forall>j < n. iteration_raises (reading_all t0 t1) j = None"
  by (simp add: iteration_raises_def reading_all_def)

lemma reading_all_prints: "at_print (reading_all t0 t1) p = None"
  by (simp add: reading_all_def)

lemma failing_at_prints: "at_print (failing_at k x) p = None"
  by (simp add: failing_at_def)

lemma failing_at_raises:
  "iteration_raises (failing_at k x) k = Some x"
  "j \<noteq> k \<Longrightarrow> iteration_raises (failing_at k x) j = None"
  by (simp_all add: iteration_raises_def failing_at_def)

lemma frame_ids_of_lines: "map frame_id (map LargeDataLine xs) = map line_id xs"
  by (simp add: frame_id_def o_def)

lemma default_stream_complete:
  assumes "at_print e AtStart = None" and "at_print e AtCount = None"
    and "at_print e AtCompleted = None" and "at_print e AtThroughput = None"
    and "\<forall>j < 10000. iteration_raises e j = None" and "end_time e \<noteq> start_time e"
  shows "frames (StreamLargeData (EmployeeDataService g) r c e)
           = map LargeDataLine (generate_sample_data g)"
    and "map frame_id (frames (StreamLargeData (EmployeeDataService g) r c e)) = map Some [1..<10001]"
    and "ending (StreamLargeData (EmployeeDataService g) r c e) = Returned"
    and "final_context (StreamLargeData (EmployeeDataService g) r c e) = c"
proof -
  let ?s = "EmployeeDataService g"
  have emp: "employees ?s = generate_sample_data g"
    by (simp add: EmployeeDataService_def)
  have res: "\<forall>j < length (employees ?s). iteration_raises e j = None"
    using assms(5) by (simp only: emp length_generate_sample_data)
  note sc = stream_clean [OF assms(1,2) res, where r = r and c = c]
  show f: "frames (StreamLargeData ?s r c e) = map LargeDataLine (generate_sample_data g)"
    using sc(1) by (simp only: emp)
  show "map frame_id (frames (StreamLargeData ?s r c e)) = map Some [1..<10001]"
    by (simp only: f frame_ids_of_lines generate_sample_data_ids)
  show "ending (StreamLargeData ?s r c e) = Returned"
    using sc(2) [OF assms(3,4,6)] by simp
  show "final_context (StreamLargeData ?s r c e) = c"
    using sc(2) [OF assms(3,4,6)] by simp
qed

lemma progress_clean_before_2500:
  "j < 2499 \<Longrightarrow> iteration_raises (print_failing_at (AtProgress 2500) x) j = None"
  by (simp add: iteration_raises_def print_failing_at_def)

lemma progress_raises_at_2500:
  "iteration_raises (print_failing_at (AtProgress 2500) x) 2499 = Some x"
  by (simp add: iteration_raises_def print_failing_at_def)

section \<open>Evaluation on examples\<close>

lemma digit_chars:
  "digit_char 0 = CHR ''0''" "digit_char (Suc 0) = CHR ''1''" "digit_char 2 = CHR ''2''"
  "digit_char 3 = CHR ''3''" "digit_char 4 = CHR ''4''" "digit_char 5 = CHR ''5''"
  "digit_char 6 = CHR ''6''" "digit_char 7 = CHR ''7''" "digit_char 8 = CHR ''8''"
  "digit_char 9 = CHR ''9''"
  by code_simp+

lemma zero_pad_unfold:
  "zero_pad w s = (if length s < w then zero_pad w (CHR ''0'' # s) else s)"
proof (cases "length s < w")
  case True
  then have "w - length s = Suc (w - Suc (length s))" by simp
  then have "replicate (w - length s) (CHR ''0'')
      = replicate (w - Suc (length s)) (CHR ''0'') @ [CHR ''0'']"
    by (simp only: replicate_Suc replicate_append_same)
  with True show ?thesis by (simp add: zero_pad_def)
next
  case False
  then show ?thesis by (simp add: zero_pad_def)
qed

lemmas fmt_eval = thousands.simps zero_pad_unfold str_nat.simps digit_chars

lemma sample_draws_2:
  "draws_at sample_rng 2 =
     \<lparr>dept = ''Marketing'', position = ''Junior'', salary = 45087, month = 11, day = 18\<rparr>"
  by (simp add: draws_at_def draw_def choice_def randint_def randbelow_def advance_def
      sample_rng_def departments_def positions_def)

section \<open>The claims about the generator\<close>

text \<open>
  Claim C1. For every record the generator appends (position \<open>k\<close> of the list, identifier
  \<open>k + 1\<close>), splitting the line at \<open>" | "\<close> and each field at \<open>": "\<close> gives back the
  identifier, the department that was drawn, and the salary that was drawn: the value of
  the ID field reads as the number \<open>k + 1\<close>, the value of the Department field is the drawn
  string, and the value of the Salary field is the dollar sign followed by the salary with
  thousands separators, which reads as the drawn integer once the dollar sign and the
  commas are taken off.
\<close>

theorem record_roundtrip:
  assumes "k < 10000"
  shows "generate_sample_data g ! k = employee_data (Suc k) (draws_at g k)
       \<and> line_id (generate_sample_data g ! k) = Some (Suc k)
       \<and> field_value ''Department'' (generate_sample_data g ! k) = Some (dept (draws_at g k))
       \<and> field_value ''Salary'' (generate_sample_data g ! k)
           = Some (CHR ''$'' # thousands (salary (draws_at g k)))
       \<and> line_salary (generate_sample_data g ! k) = Some (salary (draws_at g k))"
  using assms
  by (simp add: generate_sample_data_nth line_id_employee_data field_values_employee_data
      line_salary_employee_data salary_value_def)

theorem record_roundtrip_witness:
  "(2::nat) < 10000
   \<and> line_id (generate_sample_data sample_rng ! 2) = Some 3
   \<and> field_value ''Department'' (generate_sample_data sample_rng ! 2) = Some ''Marketing''
   \<and> line_salary (generate_sample_data sample_rng ! 2) = Some 45087"
  using record_roundtrip [of 2 sample_rng] by (auto simp: sample_draws_2)

text \<open>
  Claim C3. For every bound \<open>n\<close>, the generator's loop over \<^verbatim>\<open>range(1, n + 1)\<close> produces
  exactly \<open>n\<close> records whose identifiers are \<open>1, 2, \<dots>, n\<close> in this order, each shown
  zero-padded to five digits. The source fixes the bound at 10000, and
  \<open>generate_sample_data\<close> gives 10000 records with the identifiers 1 to 10000.
\<close>

theorem generator_sequential_ids:
  "length (fst (generate_loop [1..<Suc n] [] g)) = n
   \<and> map line_id (fst (generate_loop [1..<Suc n] [] g)) = map Some [1..<Suc n]
   \<and> map (field_value ''ID'') (fst (generate_loop [1..<Suc n] [] g))
       = map (\<lambda>i. Some (zero_pad 5 (str_nat i))) [1..<Suc n]
   \<and> length (generate_sample_data g) = 10000
   \<and> map line_id (generate_sample_data g) = map Some [1..<10001]"
proof -
  have b: "map (field_value ''ID'') (fst (generate_loop [1..<Suc n] [] g))
       = map (\<lambda>i. Some (zero_pad 5 (str_nat i))) [1..<Suc n]"
  proof -
    have "map (field_value ''ID'') (fst (generate_loop [1..<Suc n] [] g))
        = map (\<lambda>k. Some (zero_pad 5 (str_nat (Suc k)))) [0..<n]"
      unfolding generate_range by (simp add: field_values_employee_data o_def del: upt_Suc)
    then show ?thesis
      using map_Suc_shift [of "\<lambda>i. Some (zero_pad 5 (str_nat i))" n] by (simp only:)
  qed
  have l: "length (fst (generate_loop [1..<Suc n] [] g)) = n"
    unfolding generate_range by simp
  show ?thesis
    using generate_loop_ids [of n g] b generate_sample_data_ids [of g] l
      length_generate_sample_data [of g]
    by blast
qed

text \<open>
  Claim C4. For every record of the generator, the salary drawn lies in the range from
  45000 to 150000, both ends included, and the department and the position drawn are
  members of their lists, each of which has six different entries.
\<close>

theorem drawn_values_in_range:
  assumes "k < 10000"
  shows "generate_sample_data g ! k = employee_data (Suc k) (draws_at g k)
       \<and> 45000 \<le> salary (draws_at g k) \<and> salary (draws_at g k) \<le> 150000
       \<and> dept (draws_at g k) \<in> set departments
       \<and> position (draws_at g k) \<in> set positions
       \<and> length departments = 6 \<and> distinct departments
       \<and> length positions = 6 \<and> distinct positions"
proof -
  have "distinct departments" by (simp add: departments_def)
  moreover have "distinct positions" by (simp add: positions_def)
  ultimately show ?thesis
    using assms
    by (simp add: generate_sample_data_nth draw_bounds draw_members length_departments
        length_positions)
qed

theorem drawn_values_in_range_witness:
  "(2::nat) < 10000
   \<and> generate_sample_data sample_rng ! 2
       = employee_data 3 \<lparr>dept = ''Marketing'', position = ''Junior'', salary = 45087,
           month = 11, day = 18\<rparr>
   \<and> (45000::nat) \<le> 45087 \<and> (45087::nat) \<le> 150000
   \<and> ''Marketing'' \<in> set departments \<and> ''Junior'' \<in> set positions"
  using drawn_values_in_range [of 2 sample_rng] by (auto simp: sample_draws_2)

text \<open>
  Claim C5. For every record of the generator, the hire date field is \<open>2020-MM-DD\<close>, where
  \<open>MM\<close> is the two-digit numeral of a month from 1 to 12 and \<open>DD\<close> the two-digit numeral
  of a day from 1 to 28, so the date exists in the calendar of 2020.
\<close>

theorem hire_date_valid:
  assumes "k < 10000"
  shows "field_value ''Hire Date'' (generate_sample_data g ! k)
           = Some (''2020-'' @ zero_pad 2 (str_nat (month (draws_at g k))) @ ''-''
                @ zero_pad 2 (str_nat (day (draws_at g k))))
       \<and> length (zero_pad 2 (str_nat (month (draws_at g k)))) = 2
       \<and> length (zero_pad 2 (str_nat (day (draws_at g k)))) = 2
       \<and> parse_nat (zero_pad 2 (str_nat (month (draws_at g k)))) = Some (month (draws_at g k))
       \<and> parse_nat (zero_pad 2 (str_nat (day (draws_at g k)))) = Some (day (draws_at g k))
       \<and> 1 \<le> month (draws_at g k) \<and> month (draws_at g k) \<le> 12
       \<and> 1 \<le> day (draws_at g k) \<and> day (draws_at g k) \<le> 28
       \<and> valid_date 2020 (month (draws_at g k)) (day (draws_at g k))"
proof -
  note b = draw_bounds [of g k]
  have "length (str_nat (month (draws_at g k))) \<le> 2" "length (str_nat (day (draws_at g k))) \<le> 2"
    using b by (simp_all add: length_str_nat_le2)
  then have "length (zero_pad 2 (str_nat (month (draws_at g k)))) = 2"
    "length (zero_pad 2 (str_nat (day (draws_at g k)))) = 2"
    by (simp_all add: length_zero_pad)
  moreover have "valid_date 2020 (month (draws_at g k)) (day (draws_at g k))"
    using b by (simp add: valid_date_def days_in_month_def is_leap_def)
  ultimately show ?thesis
    using assms b
    by (simp add: generate_sample_data_nth field_values_employee_data date_value_def
        parse_nat_zero_pad)
qed

theorem hire_date_valid_witness:
  "(2::nat) < 10000
   \<and> field_value ''Hire Date'' (generate_sample_data sample_rng ! 2) = Some ''2020-11-18''
   \<and> valid_date 2020 11 18"
proof -
  have "zero_pad 2 (str_nat 11) = ''11''" "zero_pad 2 (str_nat 18) = ''18''"
    by (simp_all add: fmt_eval)
  then show ?thesis
    using hire_date_valid [of 2 sample_rng] by (auto simp: sample_draws_2)
qed

text \<open>
  Claim C9. Every line of the generator splits at \<open>" | "\<close> into exactly six fields, and
  these split at \<open>": "\<close> into the labels ID, Name, Email, Department, Salary and Hire
  Date, in this order, with their values, whatever was drawn. The Email value is
  \<open>employee\<close>, the identifier and \<open>@company.com\<close>.
\<close>

theorem six_labelled_fields:
  assumes "k < 10000"
  shows "parse_record (generate_sample_data g ! k) =
     [[''ID'', zero_pad 5 (str_nat (Suc k))],
      [''Name'', position (draws_at g k) @ '' '' @ dept (draws_at g k) @ '' Employee ''
          @ str_nat (Suc k)],
      [''Email'', ''employee'' @ str_nat (Suc k) @ ''@company.com''],
      [''Department'', dept (draws_at g k)],
      [''Salary'', CHR ''$'' # thousands (salary (draws_at g k))],
      [''Hire Date'', ''2020-'' @ zero_pad 2 (str_nat (month (draws_at g k))) @ ''-''
          @ zero_pad 2 (str_nat (day (draws_at g k)))]]
     \<and> length (py_split '' | '' (generate_sample_data g ! k)) = 6"
proof -
  have "length (py_split '' | '' (generate_sample_data g ! k))
      = length (parse_record (generate_sample_data g ! k))"
    by (simp add: parse_record_def)
  then show ?thesis
    using assms
    by (simp add: generate_sample_data_nth parse_record_employee_data name_value_def
        email_value_def salary_value_def date_value_def)
qed

theorem six_labelled_fields_witness:
  "(2::nat) < 10000
   \<and> parse_record (generate_sample_data sample_rng ! 2) =
     [[''ID'', ''00003''], [''Name'', ''Junior Marketing Employee 3''],
      [''Email'', ''employee3@company.com''], [''Department'', ''Marketing''],
      [''Salary'', ''$45,087''], [''Hire Date'', ''2020-11-18'']]"
proof -
  have h: "(2::nat) < 10000" by simp
  have s: "Suc 2 = 3" by simp
  note t = six_labelled_fields [OF h, of sample_rng, unfolded sample_draws_2 s, THEN conjunct1]
  have "parse_record (generate_sample_data sample_rng ! 2) =
     [[''ID'', ''00003''], [''Name'', ''Junior Marketing Employee 3''],
      [''Email'', ''employee3@company.com''], [''Department'', ''Marketing''],
      [''Salary'', ''$45,087''], [''Hire Date'', ''2020-11-18'']]"
    unfolding t by (simp add: fmt_eval)
  with h show ?thesis by (rule conjI)
qed

section \<open>The claims about the streaming handler\<close>

text \<open>
  Claim C2. A call on a freshly built service whose caller takes every frame yields
  the 10000 lines in order, with the identifiers 1 to 10000, and should end with no
  error status. The handler does so whenever its console writes succeed and the clock
  readings of lines 70 and 85 differ (\<open>default_stream_complete\<close>). When the two
  readings are equal, the division of line 87 raises ZeroDivisionError inside the
  \<^verbatim>\<open>try\<close> block after the last frame, and the call ends with the INTERNAL status:
  the run below has all 10000 frames and that status.
\<close>

theorem default_stream_zero_elapsed:
  "frames (StreamLargeData (EmployeeDataService sample_rng) LargeDataRequest fresh_context (reading_all 0 0))
     = map LargeDataLine (generate_sample_data sample_rng)
   \<and> length (frames (StreamLargeData (EmployeeDataService sample_rng) LargeDataRequest fresh_context
        (reading_all 0 0))) = 10000
   \<and> map frame_id (frames (StreamLargeData (EmployeeDataService sample_rng) LargeDataRequest fresh_context
        (reading_all 0 0))) = map Some [1..<10001]
   \<and> ending (StreamLargeData (EmployeeDataService sample_rng) LargeDataRequest fresh_context (reading_all 0 0))
       = Returned
   \<and> code (final_context (StreamLargeData (EmployeeDataService sample_rng) LargeDataRequest fresh_context
        (reading_all 0 0))) = Some INTERNAL
   \<and> details (final_context (StreamLargeData (EmployeeDataService sample_rng) LargeDataRequest fresh_context
        (reading_all 0 0))) = Some ''Streaming error: float division by zero''"
proof -
  let ?s = "EmployeeDataService sample_rng"
  let ?r = "StreamLargeData ?s LargeDataRequest fresh_context (reading_all 0 0)"
  have emp: "employees ?s = generate_sample_data sample_rng"
    by (simp add: EmployeeDataService_def)
  have t: "end_time (reading_all 0 0) = start_time (reading_all 0 0)"
    by (simp add: reading_all_def)
  note sc = stream_clean [where s = ?s and e = "reading_all 0 0" and r = LargeDataRequest
      and c = fresh_context, OF reading_all_prints reading_all_prints reading_all_clean]
  have f: "frames ?r = map LargeDataLine (generate_sample_data sample_rng)"
    using sc(1) by (simp only: emp)
  have z: "ending ?r = Returned \<and> final_context ?r
      = set_code INTERNAL (set_details ''Streaming error: float division by zero'' fresh_context)"
    using sc(3) [OF reading_all_prints reading_all_prints t] .
  have ids: "map frame_id (frames ?r) = map Some [1..<10001]"
    by (simp only: f frame_ids_of_lines generate_sample_data_ids)
  have len: "length (frames ?r) = 10000"
    by (simp only: f length_map length_generate_sample_data)
  have "code (final_context ?r) = Some INTERNAL"
    "details (final_context ?r) = Some ''Streaming error: float division by zero''"
    using z by (simp_all add: set_code_def set_details_def)
  with f z ids len show ?thesis by blast
qed






text \<open>
  Claim C8. The progress report should change nothing but the console. It does so as
  long as its \<^verbatim>\<open>print\<close> succeeds (\<open>stream_no_progress\<close>). But line 83 stands inside the
  \<^verbatim>\<open>try\<close> block: when the write of the first progress line raises, the handler
  leaves the loop after 2500 frames and sets the INTERNAL status, while the handler
  without lines 80 to 83 emits all 10000 frames with the same caller and console.
\<close>

theorem progress_print_failure_cuts_stream:
  "frames (StreamLargeData (EmployeeDataService sample_rng) LargeDataRequest fresh_context
      (print_failing_at (AtProgress 2500) (Exception ''Broken pipe'')))
     = map LargeDataLine (take 2500 (generate_sample_data sample_rng))
   \<and> length (frames (StreamLargeData (EmployeeDataService sample_rng) LargeDataRequest fresh_context
      (print_failing_at (AtProgress 2500) (Exception ''Broken pipe'')))) = 2500
   \<and> code (final_context (StreamLargeData (EmployeeDataService sample_rng) LargeDataRequest
      fresh_context (print_failing_at (AtProgress 2500) (Exception ''Broken pipe'')))) = Some INTERNAL
   \<and> frames (StreamLargeData_no_progress (EmployeeDataService sample_rng) LargeDataRequest
      fresh_context (print_failing_at (AtProgress 2500) (Exception ''Broken pipe'')))
     = map LargeDataLine (generate_sample_data sample_rng)
   \<and> length (frames (StreamLargeData_no_progress (EmployeeDataService sample_rng) LargeDataRequest
      fresh_context (print_failing_at (AtProgress 2500) (Exception ''Broken pipe'')))) = 10000"
proof -
  let ?s = "EmployeeDataService sample_rng"
  let ?e = "print_failing_at (AtProgress 2500) (Exception ''Broken pipe'')"
  have emp: "employees ?s = generate_sample_data sample_rng"
    by (simp add: EmployeeDataService_def)
  have p: "at_print ?e AtStart = None" "at_print ?e AtCount = None" "at_print ?e AtError = None"
    by (simp_all add: print_failing_at_def)
  have k: "2499 < length (employees ?s)"
    by (simp only: emp length_generate_sample_data)
  have clean: "\<forall>j < 2499. iteration_raises ?e j = None"
    by (simp add: progress_clean_before_2500)
  note sr = stream_raised [OF p(1,2) k clean progress_raises_at_2500,
      where r = LargeDataRequest and c = fresh_context]
  have s2500: "Suc 2499 = 2500" by simp
  have f: "frames (StreamLargeData ?s LargeDataRequest fresh_context ?e)
      = map LargeDataLine (take 2500 (generate_sample_data sample_rng))"
    using sr(1) by (simp only: emp s2500)
  have len: "length (frames (StreamLargeData ?s LargeDataRequest fresh_context ?e)) = 2500"
    by (simp only: f length_map length_take length_generate_sample_data)
  have "final_context (StreamLargeData ?s LargeDataRequest fresh_context ?e)
      = set_code INTERNAL (set_details (''Streaming error: '' @ ''Broken pipe'') fresh_context)"
    using sr(2) [OF refl p(3)] by simp
  then have c: "code (final_context (StreamLargeData ?s LargeDataRequest fresh_context ?e))
      = Some INTERNAL"
    by (simp add: set_code_def)
  have res: "\<forall>j < length (employees ?s). at_yield ?e j = Resume"
    by (simp add: print_failing_at_def)
  have g: "frames (StreamLargeData_no_progress ?s LargeDataRequest fresh_context ?e)
      = map LargeDataLine (generate_sample_data sample_rng)"
    using stream_no_progress_clean [OF p(1,2) res, where r = LargeDataRequest and c = fresh_context]
    by (simp only: emp)
  have glen: "length (frames (StreamLargeData_no_progress ?s LargeDataRequest fresh_context ?e))
      = 10000"
    by (simp only: g length_map length_generate_sample_data)
  from f len c g glen show ?thesis by blast
qed




end
